theory Spec2Isabelle
  imports Main
begin

section \<open>The data of \<open>src/main.py\<close>\<close>

text \<open>
  A Python \<open>str\<close> is a sequence of Unicode code points, each in \<open>0 .. 0x10FFFF\<close>;
  a character of a string is a string of length one, and \<open>ord\<close> reads its code point.
  The keys of the table are such sequences.
\<close>

typedef codepoint = "{n :: nat. n < 1114112}"
  by (rule exI [of _ 0]) simp

type_synonym str = "codepoint list"

setup_lifting type_definition_codepoint

instantiation codepoint :: equal
begin

lift_definition equal_codepoint :: "codepoint \<Rightarrow> codepoint \<Rightarrow> bool" is "\<lambda>m n. m = n" .

instance
  by standard (transfer, simp)

end

text \<open>Python's builtin \<open>ord\<close> on a one-character string: its code point.\<close>

lift_definition ord_cp :: "codepoint \<Rightarrow> int" is int .

text \<open>The code point of an 8-bit character, for writing keys down.\<close>

lift_definition cp_of_char :: "char \<Rightarrow> codepoint" is of_char
proof -
  fix c :: char
  have "(of_char c :: nat) < 256" by (cases c) simp
  then show "(of_char c :: nat) < 1114112" by linarith
qed

definition lit :: "string \<Rightarrow> str" where
  \<comment> \<open>The Python literal with the given (8-bit) characters: \<open>lit ''ab''\<close> is \<open>"ab"\<close>.\<close>
  "lit s = map cp_of_char s"

text \<open>
  A stored value is any Python object; the only one the program itself produces is
  \<open>None\<close>, which \<open>lookup\<close> returns for an absent key.
\<close>

datatype 'a pyval = PyNone | Obj 'a

text \<open>
  A \<open>dict\<close> is modelled as a map from keys to values (what is proved holds for every
  map, so for the finite ones a dict can be). The three methods use membership (\<open>k in d\<close>),
  subscription (\<open>d[k]\<close>, raising \<open>KeyError\<close> on a missing key), item assignment
  (\<open>d[k] = v\<close>) and item deletion (\<open>del d[k]\<close>, raising \<open>KeyError\<close> on a missing key).
\<close>

datatype error = KeyError

type_synonym ('k, 'v) dict = "'k \<rightharpoonup> 'v"

definition dict_contains :: "('k, 'v) dict \<Rightarrow> 'k \<Rightarrow> bool" where
  "dict_contains d k = (d k \<noteq> None)"

definition dict_getitem :: "('k, 'v) dict \<Rightarrow> 'k \<Rightarrow> error + 'v" where
  "dict_getitem d k = (case d k of None \<Rightarrow> Inl KeyError | Some v \<Rightarrow> Inr v)"

definition dict_setitem :: "('k, 'v) dict \<Rightarrow> 'k \<Rightarrow> 'v \<Rightarrow> ('k, 'v) dict" where
  "dict_setitem d k v = d(k \<mapsto> v)"

definition dict_delitem :: "('k, 'v) dict \<Rightarrow> 'k \<Rightarrow> error + ('k, 'v) dict" where
  "dict_delitem d k = (case d k of None \<Rightarrow> Inl KeyError | Some _ \<Rightarrow> Inr (d(k := None)))"

text \<open>
  \<open>class HashTable\<close> has the single attribute \<open>collection\<close>: a dict from hash codes
  (Python integers, unbounded) to buckets, each bucket a dict from keys to values.
  Every bucket is created by \<open>add\<close> as a fresh \<open>{}\<close> and is reachable only through
  \<open>collection\<close>, so the nesting of maps carries the sharing the code has.
\<close>

type_synonym 'a bucket = "(str, 'a pyval) dict"

record 'a HashTable =
  collection :: "(int, 'a bucket) dict"

section \<open>The methods\<close>

definition init :: "'a HashTable" where
  \<comment> \<open>\<open>__init__\<close>: \<open>self.collection = {}\<close>\<close>
  "init = \<lparr>collection = Map.empty\<rparr>"

text \<open>
  \<open>hash\<close>: the loop \<open>for c in string: hash += ord(c)\<close> from \<open>hash = 0\<close>, as a
  recursion on the characters left, with the running total as accumulator.
\<close>

fun hash_loop :: "int \<Rightarrow> str \<Rightarrow> int" where
  "hash_loop h [] = h"
| "hash_loop h (c # cs) = hash_loop (h + ord_cp c) cs"

definition hash :: "str \<Rightarrow> int" where
  "hash string = hash_loop 0 string"

text \<open>
  The methods mutate \<open>self\<close>; here each takes the table and returns the table it leaves
  (or the value it returns), or the exception a dict operation raised.
\<close>

definition add :: "'a HashTable \<Rightarrow> str \<Rightarrow> 'a pyval \<Rightarrow> error + 'a HashTable" where
  "add self key val =
    (let computed_hash = hash key;
         c1 = (if \<not> dict_contains (collection self) computed_hash
               then dict_setitem (collection self) computed_hash Map.empty
               else collection self)
     in case dict_getitem c1 computed_hash of
          Inl e \<Rightarrow> Inl e
        | Inr b \<Rightarrow>
            Inr (self\<lparr>collection := dict_setitem c1 computed_hash (dict_setitem b key val)\<rparr>))"

definition remove :: "'a HashTable \<Rightarrow> str \<Rightarrow> error + 'a HashTable" where
  "remove self key =
    (let computed_hash = hash key
     in if dict_contains (collection self) computed_hash then
          (case dict_getitem (collection self) computed_hash of
             Inl e \<Rightarrow> Inl e
           | Inr b \<Rightarrow>
               if dict_contains b key then
                 (case dict_delitem b key of
                    Inl e \<Rightarrow> Inl e
                  | Inr b' \<Rightarrow>
                      Inr (self\<lparr>collection := dict_setitem (collection self) computed_hash b'\<rparr>))
               else Inr self)
        else Inr self)"

definition lookup :: "'a HashTable \<Rightarrow> str \<Rightarrow> error + 'a pyval" where
  "lookup self key =
    (let computed_hash = hash key
     in if dict_contains (collection self) computed_hash then
          (case dict_getitem (collection self) computed_hash of
             Inl e \<Rightarrow> Inl e
           | Inr b \<Rightarrow>
               if dict_contains b key then dict_getitem b key
               else Inr PyNone)
        else Inr PyNone)"

section \<open>Calls on a table, and what a table holds\<close>

text \<open>
  A method call on a table gives the value the call returns and the table it leaves.
  \<open>add\<close> and \<open>remove\<close> have no \<open>return\<close> statement, so they return \<open>None\<close>;
  \<open>lookup\<close> assigns to nothing, so it leaves the table as it found it.
\<close>

datatype 'a method_call = Add str "'a pyval" | Remove str | Lookup str

fun call :: "'a HashTable \<Rightarrow> 'a method_call \<Rightarrow> error + ('a pyval \<times> 'a HashTable)" where
  "call self (Add key val) =
     (case add self key val of Inl e \<Rightarrow> Inl e | Inr t \<Rightarrow> Inr (PyNone, t))"
| "call self (Remove key) =
     (case remove self key of Inl e \<Rightarrow> Inl e | Inr t \<Rightarrow> Inr (PyNone, t))"
| "call self (Lookup key) =
     (case lookup self key of Inl e \<Rightarrow> Inl e | Inr v \<Rightarrow> Inr (v, self))"

fun calls :: "'a HashTable \<Rightarrow> 'a method_call list \<Rightarrow> error + 'a HashTable" where
  "calls self [] = Inr self"
| "calls self (c # cs) =
     (case call self c of Inl e \<Rightarrow> Inl e | Inr (r, t) \<Rightarrow> calls t cs)"

definition in_bucket :: "'a HashTable \<Rightarrow> int \<Rightarrow> str \<Rightarrow> bool" where
  \<comment> \<open>\<open>h in self.collection and key in self.collection[h]\<close>\<close>
  "in_bucket self h key =
     (case collection self h of None \<Rightarrow> False | Some b \<Rightarrow> dict_contains b key)"

definition bucket_invariant :: "'a HashTable \<Rightarrow> bool" where
  \<comment> \<open>a key held by some bucket is held by exactly one, the bucket under its hash code\<close>
  "bucket_invariant self =
     (\<forall>key. (\<exists>h. in_bucket self h key) \<longrightarrow> {h. in_bucket self h key} = {hash key})"

text \<open>
  A table used in the examples below: the one \<open>add("ab", 1)\<close> leaves when called on
  a new table (\<open>ord("a") + ord("b") = 97 + 98 = 195\<close>).
\<close>

definition ab_table :: "int HashTable" where
  "ab_table = \<lparr>collection = [195 \<mapsto> [lit ''ab'' \<mapsto> Obj 1]]\<rparr>"

section \<open>The hash function\<close>

lemma hash_loop_sum: "hash_loop h s = h + sum_list (map ord_cp s)"
  by (induction s arbitrary: h) simp_all

lemma hash_sum: "hash s = sum_list (map ord_cp s)"
  by (simp add: hash_def hash_loop_sum)

lemma ord_cp_of_char: "ord_cp (cp_of_char c) = int (of_char c)"
  by transfer simp

lemma ord_cp_lit: "map ord_cp (lit s) = map (\<lambda>c. int (of_char c)) s"
  by (simp add: lit_def ord_cp_of_char)

lemma hash_lit: "hash (lit s) = sum_list (map (\<lambda>c. int (of_char c)) s)"
  by (simp add: hash_sum ord_cp_lit)

section \<open>What the methods compute\<close>

text \<open>
  No dict operation of the three methods raises: each subscription and deletion is
  guarded by the membership test before it. So each method returns, with the result
  below.
\<close>

lemma lit_ab_neq_ba: "lit ''ab'' \<noteq> lit ''ba''"
proof
  assume "lit ''ab'' = lit ''ba''"
  then have "map ord_cp (lit ''ab'') = map ord_cp (lit ''ba'')" by simp
  then show False by (simp add: ord_cp_lit)
qed

lemma add_Inr:
  "add self key val =
     Inr (self\<lparr>collection := (collection self)(hash key \<mapsto>
            (case collection self (hash key) of None \<Rightarrow> Map.empty | Some b \<Rightarrow> b)(key \<mapsto> val))\<rparr>)"
  by (simp add: add_def Let_def dict_contains_def dict_setitem_def dict_getitem_def
      split: option.splits)

lemma remove_Inr:
  "remove self key =
     Inr (case collection self (hash key) of
            None \<Rightarrow> self
          | Some b \<Rightarrow>
              (case b key of
                 None \<Rightarrow> self
               | Some _ \<Rightarrow> self\<lparr>collection := (collection self)(hash key \<mapsto> b(key := None))\<rparr>))"
  by (simp add: remove_def Let_def dict_contains_def dict_setitem_def dict_getitem_def
      dict_delitem_def split: option.splits)

lemma lookup_Inr:
  "lookup self key =
     Inr (case collection self (hash key) of
            None \<Rightarrow> PyNone
          | Some b \<Rightarrow> (case b key of None \<Rightarrow> PyNone | Some v \<Rightarrow> v))"
  by (simp add: lookup_def Let_def dict_contains_def dict_getitem_def split: option.splits)

lemma lookup_add_same: "add self k v = Inr t \<Longrightarrow> lookup t k = Inr v"
  by (auto simp: add_Inr lookup_Inr)

lemma lookup_add_other: "add self k v = Inr t \<Longrightarrow> k' \<noteq> k \<Longrightarrow> lookup t k' = lookup self k'"
  by (auto simp: add_Inr lookup_Inr split: option.splits if_splits)

lemma lookup_remove_same: "remove self k = Inr t \<Longrightarrow> lookup t k = Inr PyNone"
  by (auto simp: remove_Inr lookup_Inr split: option.splits if_splits)

lemma lookup_remove_other:
  "remove self k = Inr t \<Longrightarrow> k' \<noteq> k \<Longrightarrow> lookup t k' = lookup self k'"
  by (auto simp: remove_Inr lookup_Inr split: option.splits if_splits)

lemma remove_absent: "\<not> in_bucket self (hash k) k \<Longrightarrow> remove self k = Inr self"
  by (auto simp: remove_Inr in_bucket_def dict_contains_def split: option.splits)

lemma in_bucket_remove_same: "remove self k = Inr t \<Longrightarrow> \<not> in_bucket t (hash k) k"
  by (auto simp: remove_Inr in_bucket_def dict_contains_def split: option.splits)

lemma in_bucket_add:
  "add self k v = Inr t \<Longrightarrow>
   in_bucket t h k' \<longleftrightarrow> (h = hash k \<and> k' = k) \<or> in_bucket self h k'"
  by (auto simp: add_Inr in_bucket_def dict_contains_def split: option.splits if_splits)

lemma in_bucket_remove:
  "remove self k = Inr t \<Longrightarrow>
   in_bucket t h k' \<longleftrightarrow> in_bucket self h k' \<and> \<not> (h = hash k \<and> k' = k)"
  by (auto simp: remove_Inr in_bucket_def dict_contains_def split: option.splits if_splits)

lemma bucket_invariant_iff:
  "bucket_invariant self \<longleftrightarrow> (\<forall>h key. in_bucket self h key \<longrightarrow> h = hash key)"
  unfolding bucket_invariant_def by blast

lemma bucket_invariant_init: "bucket_invariant init"
  by (simp add: bucket_invariant_iff in_bucket_def init_def)

lemma bucket_invariant_add:
  "bucket_invariant self \<Longrightarrow> add self k v = Inr t \<Longrightarrow> bucket_invariant t"
  by (simp add: bucket_invariant_iff in_bucket_add)

lemma bucket_invariant_remove:
  "bucket_invariant self \<Longrightarrow> remove self k = Inr t \<Longrightarrow> bucket_invariant t"
  by (simp add: bucket_invariant_iff in_bucket_remove)

lemma call_total: "\<exists>r t. call self c = Inr (r, t)"
  by (cases c) (simp_all add: add_Inr remove_Inr lookup_Inr)

lemma bucket_invariant_call:
  "bucket_invariant self \<Longrightarrow> call self c = Inr (r, t) \<Longrightarrow> bucket_invariant t"
  by (cases c)
    (auto split: sum.splits dest: bucket_invariant_add bucket_invariant_remove)

lemma bucket_invariant_calls:
  "bucket_invariant self \<Longrightarrow> \<exists>t. calls self cs = Inr t \<and> bucket_invariant t"
proof (induction cs arbitrary: self)
  case Nil
  then show ?case by simp
next
  case (Cons c cs)
  obtain r t where ct: "call self c = Inr (r, t)"
    using call_total by blast
  with Cons.prems have "bucket_invariant t"
    by (rule bucket_invariant_call)
  then have "\<exists>t'. calls t cs = Inr t' \<and> bucket_invariant t'"
    by (rule Cons.IH)
  with ct show ?case by simp
qed

lemma bucket_kept_call:
  "dict_contains (collection self) h \<Longrightarrow> call self c = Inr (r, t) \<Longrightarrow>
   dict_contains (collection t) h"
  by (cases c)
    (auto simp: add_Inr remove_Inr lookup_Inr dict_contains_def split: option.splits)

lemma bucket_kept_calls:
  "dict_contains (collection self) h \<Longrightarrow>
   \<exists>t. calls self cs = Inr t \<and> dict_contains (collection t) h"
proof (induction cs arbitrary: self)
  case Nil
  then show ?case by simp
next
  case (Cons c cs)
  obtain r t where ct: "call self c = Inr (r, t)"
    using call_total by blast
  with Cons.prems have "dict_contains (collection t) h"
    by (rule bucket_kept_call)
  then have "\<exists>t'. calls t cs = Inr t' \<and> dict_contains (collection t') h"
    by (rule Cons.IH)
  with ct show ?case by simp
qed

lemma remove_last_entry:
  "collection self (hash k) = Some b \<Longrightarrow> dom b = {k} \<Longrightarrow>
   \<exists>t. remove self k = Inr t \<and> collection t (hash k) = Some Map.empty"
proof -
  assume b: "collection self (hash k) = Some b" and d: "dom b = {k}"
  from d obtain v where v: "b k = Some v" by auto
  have "b(k := None) = Map.empty"
  proof
    fix x show "(b(k := None)) x = None" using d by (cases "x = k") auto
  qed
  with b v show ?thesis by (simp add: remove_Inr)
qed

text \<open>The example keys and the example table.\<close>

lemma hash_ab: "hash (lit ''ab'') = 195"
  by (simp add: hash_lit)

lemma hash_ba: "hash (lit ''ba'') = 195"
  by (simp add: hash_lit)

lemma add_init_ab: "add init (lit ''ab'') (Obj 1) = Inr ab_table"
  by (simp add: add_Inr init_def hash_lit ab_table_def)

lemma ab_table_bucket: "collection ab_table 195 = Some [lit ''ab'' \<mapsto> Obj 1]"
  by (simp add: ab_table_def)

lemma bucket_invariant_ab_table: "bucket_invariant ab_table"
  by (auto simp: bucket_invariant_iff in_bucket_def dict_contains_def ab_table_def hash_ab
      split: if_splits option.splits)

section \<open>The claims\<close>

text \<open>
  C1: for every table, every key (the empty string too) and every value (\<open>None\<close> too),
  \<open>add(k, v)\<close> returns without raising and \<open>lookup(k)\<close> on the table it leaves
  returns \<open>v\<close>.
\<close>

theorem C1_add_then_lookup: "\<exists>t. add self k v = Inr t \<and> lookup t k = Inr v"
  by (simp add: add_Inr lookup_Inr)

theorem C1_add_then_lookup_witness:
  "\<exists>t. add ab_table [] PyNone = Inr t \<and> lookup t [] = Inr PyNone"
  by (rule C1_add_then_lookup)

text \<open>
  C2: the hash code of a key is the sum of the code points of its characters; the empty
  string hashes to 0; the result is a function of the string alone (two calls on equal
  strings give equal integers).
\<close>

theorem C2_hash_is_codepoint_sum:
  "hash s = (\<Sum>c\<leftarrow>s. ord_cp c) \<and> hash [] = 0 \<and> (\<forall>s'. s' = s \<longrightarrow> hash s' = hash s)"
  by (simp add: hash_sum)

theorem C2_hash_is_codepoint_sum_witness:
  "hash (lit ''ab'') = (\<Sum>c\<leftarrow>lit ''ab''. ord_cp c) \<and> hash (lit ''ab'') = 195"
  using C2_hash_is_codepoint_sum [of "lit ''ab''"] by (simp add: hash_lit)

text \<open>
  C3: in a new table every key held by a bucket is held by exactly one bucket, the one
  under \<open>hash(key)\<close>; every call of \<open>add\<close>, \<open>remove\<close> or \<open>lookup\<close> on a table
  where this holds returns and leaves a table where it holds; so it holds after any
  sequence of calls on a new table.
\<close>

theorem C3_bucket_invariant:
  "bucket_invariant (init :: 'a HashTable) \<and>
   (bucket_invariant (self :: 'a HashTable) \<longrightarrow>
      (\<exists>r t. call self c = Inr (r, t) \<and> bucket_invariant t)) \<and>
   (\<exists>t. calls (init :: 'a HashTable) cs = Inr t \<and> bucket_invariant t)"
proof (intro conjI impI)
  show "bucket_invariant (init :: 'a HashTable)"
    by (rule bucket_invariant_init)
  show "\<exists>t. calls (init :: 'a HashTable) cs = Inr t \<and> bucket_invariant t"
    by (rule bucket_invariant_calls) (rule bucket_invariant_init)
next
  assume inv: "bucket_invariant self"
  obtain r t where ct: "call self c = Inr (r, t)"
    using call_total by blast
  with inv have "bucket_invariant t" by (rule bucket_invariant_call)
  with ct show "\<exists>r t. call self c = Inr (r, t) \<and> bucket_invariant t" by blast
qed

theorem C3_bucket_invariant_witness:
  "in_bucket ab_table 195 (lit ''ab'') \<and> bucket_invariant ab_table \<and>
   (\<exists>r t. call ab_table (Add (lit ''ba'') (Obj 2)) = Inr (r, t) \<and> bucket_invariant t) \<and>
   (\<exists>t. calls init [Add (lit ''ab'') (Obj 1), Add (lit ''ba'') (Obj 2), Remove (lit ''ab'')]
          = Inr t \<and> bucket_invariant (t :: int HashTable))"
  using C3_bucket_invariant [of ab_table "Add (lit ''ba'') (Obj 2)"
      "[Add (lit ''ab'') (Obj 1), Add (lit ''ba'') (Obj 2), Remove (lit ''ab'')]"]
    bucket_invariant_ab_table
  by (simp add: in_bucket_def dict_contains_def ab_table_def del: call.simps calls.simps)

text \<open>
  C4: for two distinct keys with the same hash code (such as \<open>"ab"\<close> and \<open>"ba"\<close>), on
  any table: after \<open>add(k1, v1); add(k2, v2)\<close>, \<open>lookup(k1)\<close> returns \<open>v1\<close> and
  \<open>lookup(k2)\<close> returns \<open>v2\<close>; after \<open>remove(k1)\<close> then, \<open>lookup(k2)\<close> still returns
  \<open>v2\<close> and \<open>lookup(k1)\<close> returns \<open>None\<close>. The witness is the instance the claim names:
  \<open>"ab"\<close> with 1 and \<open>"ba"\<close> with 2, on a new table.
\<close>

theorem C4_collision_independence:
  assumes "k1 \<noteq> k2" and "hash k1 = hash k2"
  shows "\<exists>t1 t2 t3.
           add self k1 v1 = Inr t1 \<and> add t1 k2 v2 = Inr t2 \<and>
           lookup t2 k1 = Inr v1 \<and> lookup t2 k2 = Inr v2 \<and>
           remove t2 k1 = Inr t3 \<and>
           lookup t3 k2 = Inr v2 \<and> lookup t3 k1 = Inr PyNone"
proof -
  obtain t1 where t1: "add self k1 v1 = Inr t1" by (simp add: add_Inr)
  obtain t2 where t2: "add t1 k2 v2 = Inr t2" by (simp add: add_Inr)
  obtain t3 where t3: "remove t2 k1 = Inr t3" by (simp add: remove_Inr)
  have l1: "lookup t1 k1 = Inr v1" using t1 by (rule lookup_add_same)
  have "lookup t2 k1 = lookup t1 k1" using t2 assms(1) by (rule lookup_add_other)
  with l1 have a: "lookup t2 k1 = Inr v1" by simp
  have b: "lookup t2 k2 = Inr v2" using t2 by (rule lookup_add_same)
  have "lookup t3 k2 = lookup t2 k2" using t3 assms(1) [symmetric] by (rule lookup_remove_other)
  with b have c: "lookup t3 k2 = Inr v2" by simp
  have d: "lookup t3 k1 = Inr PyNone" using t3 by (rule lookup_remove_same)
  from t1 t2 t3 a b c d show ?thesis by blast
qed

theorem C4_collision_independence_witness:
  "lit ''ab'' \<noteq> lit ''ba'' \<and> hash (lit ''ab'') = hash (lit ''ba'') \<and>
   (\<exists>t1 t2 t3.
      add (init :: int HashTable) (lit ''ab'') (Obj 1) = Inr t1 \<and>
      add t1 (lit ''ba'') (Obj 2) = Inr t2 \<and>
      lookup t2 (lit ''ab'') = Inr (Obj 1) \<and> lookup t2 (lit ''ba'') = Inr (Obj 2) \<and>
      remove t2 (lit ''ab'') = Inr t3 \<and>
      lookup t3 (lit ''ba'') = Inr (Obj 2) \<and> lookup t3 (lit ''ab'') = Inr PyNone)"
proof -
  have h: "hash (lit ''ab'') = hash (lit ''ba'')" by (simp add: hash_lit)
  show ?thesis
    using lit_ab_neq_ba h C4_collision_independence [OF lit_ab_neq_ba h] by blast
qed

text \<open>
  C5: after \<open>add(k, v1); add(k, v2)\<close>, \<open>lookup(k)\<close> returns \<open>v2\<close> (so it returns \<open>v1\<close>
  only when \<open>v1\<close> is \<open>v2\<close>). A bucket is a dict, which holds at most one entry per key;
  the second \<open>add\<close> leaves the key set of the bucket as the first left it, with \<open>k\<close>
  bound to \<open>v2\<close>, and the table it leaves is the table \<open>add(k, v2)\<close> alone would have
  left: nothing of \<open>v1\<close> remains.
\<close>

theorem C5_overwrite:
  "\<exists>t1 t2 b1 b2.
     add self k v1 = Inr t1 \<and> add t1 k v2 = Inr t2 \<and>
     lookup t2 k = Inr v2 \<and> (lookup t2 k = Inr v1 \<longrightarrow> v1 = v2) \<and>
     add self k v2 = Inr t2 \<and>
     collection t1 (hash k) = Some b1 \<and> collection t2 (hash k) = Some b2 \<and>
     dom b2 = dom b1 \<and> b2 k = Some v2"
  by (auto simp: add_Inr lookup_Inr)

theorem C5_overwrite_witness:
  "\<exists>t1 t2.
     add ab_table (lit ''ab'') (Obj 1) = Inr t1 \<and> add t1 (lit ''ab'') (Obj 2) = Inr t2 \<and>
     lookup t2 (lit ''ab'') = Inr (Obj 2) \<and> lookup t2 (lit ''ab'') \<noteq> Inr (Obj 1)"
  using C5_overwrite [of ab_table "lit ''ab''" "Obj 1" "Obj 2"] by auto

text \<open>
  C6: on a new table \<open>lookup(k)\<close> returns \<open>None\<close>; on any table, \<open>lookup(k)\<close> returns
  \<open>None\<close> when there is no bucket under \<open>hash(k)\<close> or that bucket does not hold \<open>k\<close>.
\<close>

theorem C6_lookup_absent:
  "lookup init k = Inr PyNone \<and>
   (\<not> dict_contains (collection self) (hash k) \<or>
    (\<exists>b. collection self (hash k) = Some b \<and> \<not> dict_contains b k)
    \<longrightarrow> lookup self k = Inr PyNone)"
  by (auto simp: lookup_Inr init_def dict_contains_def)

theorem C6_lookup_absent_witness:
  "lookup init (lit ''ba'') = (Inr PyNone :: error + int pyval) \<and>
   dict_contains (collection ab_table) (hash (lit ''ba'')) \<and>
   (\<exists>b. collection ab_table (hash (lit ''ba'')) = Some b \<and> \<not> dict_contains b (lit ''ba'')) \<and>
   lookup ab_table (lit ''ba'') = Inr PyNone"
proof -
  have b: "\<exists>b. collection ab_table (hash (lit ''ba'')) = Some b \<and> \<not> dict_contains b (lit ''ba'')"
    using lit_ab_neq_ba by (simp add: hash_ba ab_table_bucket dict_contains_def)
  have c: "dict_contains (collection ab_table) (hash (lit ''ba''))"
    by (simp add: hash_ba ab_table_bucket dict_contains_def)
  from b c C6_lookup_absent [of "lit ''ba''" ab_table] show ?thesis by blast
qed

text \<open>
  C7: \<open>remove(k)\<close> never raises; when there is no bucket under \<open>hash(k)\<close>, or that
  bucket does not hold \<open>k\<close>, it leaves the table exactly as it was.
\<close>

theorem C7_remove_absent_noop:
  "(\<exists>t. remove self k = Inr t) \<and>
   (\<not> dict_contains (collection self) (hash k) \<or>
    (\<exists>b. collection self (hash k) = Some b \<and> \<not> dict_contains b k)
    \<longrightarrow> remove self k = Inr self)"
  by (auto simp: remove_Inr dict_contains_def)

theorem C7_remove_absent_noop_witness:
  "\<not> dict_contains (collection (init :: int HashTable)) (hash (lit ''ab'')) \<and>
   remove (init :: int HashTable) (lit ''ab'') = Inr init \<and>
   (\<exists>b. collection ab_table (hash (lit ''ba'')) = Some b \<and> \<not> dict_contains b (lit ''ba'')) \<and>
   remove ab_table (lit ''ba'') = Inr ab_table"
proof -
  have a: "\<not> dict_contains (collection (init :: int HashTable)) (hash (lit ''ab''))"
    by (simp add: init_def dict_contains_def)
  have b: "\<exists>b. collection ab_table (hash (lit ''ba'')) = Some b \<and> \<not> dict_contains b (lit ''ba'')"
    using lit_ab_neq_ba by (simp add: hash_ba ab_table_bucket dict_contains_def)
  from a b C7_remove_absent_noop [of "init :: int HashTable" "lit ''ab''"]
    C7_remove_absent_noop [of ab_table "lit ''ba''"]
  show ?thesis by blast
qed

text \<open>
  C8: on any table, a second \<open>remove(k)\<close> right after the first leaves the table the
  first left.
\<close>

theorem C8_remove_idempotent: "\<exists>t. remove self k = Inr t \<and> remove t k = Inr t"
proof -
  obtain t where t: "remove self k = Inr t" by (simp add: remove_Inr)
  then have "\<not> in_bucket t (hash k) k" by (rule in_bucket_remove_same)
  then have "remove t k = Inr t" by (rule remove_absent)
  with t show ?thesis by blast
qed

theorem C8_remove_idempotent_witness:
  "\<exists>t. remove ab_table (lit ''ab'') = Inr t \<and> remove t (lit ''ab'') = Inr t \<and> t \<noteq> ab_table"
proof -
  obtain t where t: "remove ab_table (lit ''ab'') = Inr t" "remove t (lit ''ab'') = Inr t"
    using C8_remove_idempotent [of ab_table "lit ''ab''"] by blast
  from t(1) have "lookup t (lit ''ab'') = Inr PyNone" by (rule lookup_remove_same)
  moreover have "lookup ab_table (lit ''ab'') = Inr (Obj 1)"
    by (simp add: lookup_Inr hash_ab ab_table_bucket)
  ultimately have "t \<noteq> ab_table" by auto
  with t show ?thesis by blast
qed

text \<open>
  C9: a hash code that has a bucket in \<open>collection\<close> still has one after any call of
  \<open>add\<close>, \<open>remove\<close> or \<open>lookup\<close>, hence after any sequence of calls; and \<open>remove(k)\<close>
  on a table whose bucket under \<open>hash(k)\<close> holds \<open>k\<close> alone leaves the empty bucket
  under \<open>hash(k)\<close>.
\<close>

theorem C9_buckets_persist:
  "(dict_contains (collection self) h \<longrightarrow>
      (\<exists>r t. call self c = Inr (r, t) \<and> dict_contains (collection t) h) \<and>
      (\<exists>t. calls self cs = Inr t \<and> dict_contains (collection t) h)) \<and>
   (collection self (hash k) = Some b \<and> dom b = {k} \<longrightarrow>
      (\<exists>t. remove self k = Inr t \<and> collection t (hash k) = Some Map.empty))"
proof (intro conjI impI)
  assume h: "dict_contains (collection self) h"
  obtain r t where ct: "call self c = Inr (r, t)"
    using call_total by blast
  with h have "dict_contains (collection t) h" by (rule bucket_kept_call)
  with ct show "\<exists>r t. call self c = Inr (r, t) \<and> dict_contains (collection t) h" by blast
  from h show "\<exists>t. calls self cs = Inr t \<and> dict_contains (collection t) h"
    by (rule bucket_kept_calls)
next
  assume "collection self (hash k) = Some b \<and> dom b = {k}"
  then show "\<exists>t. remove self k = Inr t \<and> collection t (hash k) = Some Map.empty"
    by (blast intro: remove_last_entry)
qed

theorem C9_buckets_persist_witness:
  "dict_contains (collection ab_table) 195 \<and>
   (\<exists>r t. call ab_table (Remove (lit ''ab'')) = Inr (r, t) \<and> dict_contains (collection t) 195) \<and>
   (\<exists>t. calls ab_table [Remove (lit ''ab''), Lookup (lit ''ab''), Add (lit ''c'') PyNone] = Inr t \<and>
        dict_contains (collection t) 195) \<and>
   (\<exists>t. remove ab_table (lit ''ab'') = Inr t \<and> collection t (hash (lit ''ab'')) = Some Map.empty)"
proof -
  have a: "dict_contains (collection ab_table) 195"
    by (simp add: ab_table_bucket dict_contains_def)
  have b: "collection ab_table (hash (lit ''ab'')) = Some [lit ''ab'' \<mapsto> Obj 1] \<and>
           dom [lit ''ab'' \<mapsto> Obj 1 :: int pyval] = {lit ''ab''}"
    by (simp add: hash_ab ab_table_bucket)
  from a b C9_buckets_persist [of ab_table 195 "Remove (lit ''ab'')"
      "[Remove (lit ''ab''), Lookup (lit ''ab''), Add (lit ''c'') PyNone]"
      "lit ''ab''" "[lit ''ab'' \<mapsto> Obj 1]"]
  show ?thesis by blast
qed

text \<open>
  C10: on any table, for a key \<open>k'\<close> other than \<open>k\<close> (with the same hash code or
  not), \<open>lookup(k')\<close> returns after \<open>add(k, v)\<close> what it returned before.
\<close>

theorem C10_add_frame:
  "k' \<noteq> k \<Longrightarrow> \<exists>t. add self k v = Inr t \<and> lookup t k' = lookup self k'"
  by (auto simp: add_Inr lookup_Inr split: option.splits if_splits)

theorem C10_add_frame_witness:
  "lit ''ab'' \<noteq> lit ''ba'' \<and> hash (lit ''ab'') = hash (lit ''ba'') \<and>
   (\<exists>t. add ab_table (lit ''ba'') (Obj 2) = Inr t \<and>
        lookup t (lit ''ab'') = lookup ab_table (lit ''ab'') \<and>
        lookup ab_table (lit ''ab'') = Inr (Obj 1))"
proof -
  have "lookup ab_table (lit ''ab'') = Inr (Obj 1)"
    by (simp add: lookup_Inr hash_ab ab_table_bucket)
  with lit_ab_neq_ba C10_add_frame [OF lit_ab_neq_ba, of ab_table "Obj 2"]
  show ?thesis by (auto simp: hash_ab hash_ba)
qed

end
